theory Spec2Isabelle
  imports Main
begin

section \<open>Python list primitives used by the scenarios\<close>

text \<open>
  Exceptions of the source are values.  \<open>ValueError\<close> is raised explicitly by the
  code, \<open>IndexError\<close> by an out-of-range subscript, \<open>UnboundLocalError\<close> by
  reading a local variable that no branch assigned, \<open>OverflowError\<close> by converting an
  integer that no double can hold, and \<open>ExternalError\<close> stands for any exception of
  a collaborator outside the modelled files.
\<close>

datatype error = ValueError | IndexError | UnboundLocalError | OverflowError | ExternalError

text \<open>
  A slice bound of Python: a negative bound counts from the end, and every bound is
  clamped to the list (\<open>xs[lo:hi]\<close> never raises).
\<close>

definition slice_bound :: "nat \<Rightarrow> int \<Rightarrow> nat" where
  "slice_bound n i = (if i < 0 then nat (max (i + int n) 0) else min (nat i) n)"

definition py_slice :: "'a list \<Rightarrow> int \<Rightarrow> int \<Rightarrow> 'a list" where
  "py_slice xs lo hi =
     (let l = slice_bound (length xs) lo; h = slice_bound (length xs) hi
      in take (h - l) (drop l xs))"

text \<open>\<open>xs[i]\<close>: negative subscripts count from the end, out of range raises.\<close>

definition py_index :: "'a list \<Rightarrow> int \<Rightarrow> error + 'a" where
  "py_index xs i =
     (if 0 \<le> i \<and> i < int (length xs) then Inr (xs ! nat i)
      else if - int (length xs) \<le> i \<and> i < 0 then Inr (xs ! nat (int (length xs) + i))
      else Inl IndexError)"

text \<open>\<open>xs.index(v)\<close>: the first position of \<open>v\<close>, \<open>ValueError\<close> when absent.\<close>

fun list_index :: "'a list \<Rightarrow> 'a \<Rightarrow> error + int" where
  "list_index [] v = Inl ValueError"
| "list_index (x # xs) v =
     (if x = v then Inr 0
      else case list_index xs v of Inl e \<Rightarrow> Inl e | Inr k \<Rightarrow> Inr (k + 1))"

text \<open>\<open>np.unique\<close> of a flat array: its distinct values in increasing order.\<close>

definition np_unique :: "int list \<Rightarrow> int list" where
  "np_unique vs = sort (remdups vs)"

section \<open>Segmentation scenario: the membership filter\<close>

text \<open>
  The membership matrix is \<open>np.zeros((len(paths), len(increments)))\<close>, a list of rows.
  Its cells only ever hold 0.0 and 1.0, modelled as the integers 0 and 1.
  \<open>t[index, task_id] = 1\<close> raises \<open>IndexError\<close> outside the matrix.
\<close>

type_synonym matrix = "int list list"

definition np_zeros :: "nat \<Rightarrow> nat \<Rightarrow> matrix" where
  "np_zeros n m = replicate n (replicate m 0)"

definition set_cell :: "matrix \<Rightarrow> nat \<Rightarrow> nat \<Rightarrow> int \<Rightarrow> error + matrix" where
  "set_cell t i j v =
     (if i < length t \<and> j < length (t ! i) then Inr (t[i := (t ! i)[j := v]])
      else Inl IndexError)"

text \<open>
  The body of the inner loop of \<open>_filter_images\<close> (one sample, one task): the
  \<open>if mode == "overlap" ... elif mode == "disjoint" ... else raise\<close> chain.
\<close>

definition filter_body ::
  "string \<Rightarrow> int list \<Rightarrow> int list \<Rightarrow> nat \<Rightarrow> nat \<Rightarrow> int list \<Rightarrow> matrix \<Rightarrow> error + matrix" where
  "filter_body mode labels all_labels task_id index classes t =
     (if mode = ''overlap'' then
        (if list_ex (\<lambda>c. c \<in> set labels) classes then set_cell t index task_id 1
         else Inr t)
      else if mode = ''disjoint'' then
        (if list_ex (\<lambda>c. c \<in> set labels) classes
            \<and> list_all (\<lambda>c. c \<in> set all_labels) classes
         then set_cell t index task_id 1
         else Inr t)
      else Inl ValueError)"

text \<open>\<open>for index, classes in enumerate(indexes_to_classes)\<close>, from position \<open>index\<close> on.\<close>

fun filter_samples ::
  "string \<Rightarrow> int list \<Rightarrow> int list \<Rightarrow> nat \<Rightarrow> nat \<Rightarrow> int list list \<Rightarrow> matrix \<Rightarrow> error + matrix" where
  "filter_samples mode labels all_labels task_id index [] t = Inr t"
| "filter_samples mode labels all_labels task_id index (classes # rest) t =
     (case filter_body mode labels all_labels task_id index classes t of
        Inl e \<Rightarrow> Inl e
      | Inr t' \<Rightarrow> filter_samples mode labels all_labels task_id (Suc index) rest t')"

text \<open>
  \<open>for task_id, inc in enumerate(increments)\<close>, from task \<open>task_id\<close> on, with the
  running \<open>accumulated_inc\<close>.
\<close>

fun filter_tasks ::
  "string \<Rightarrow> int list \<Rightarrow> int list list \<Rightarrow> nat \<Rightarrow> int \<Rightarrow> int list \<Rightarrow> matrix \<Rightarrow> error + matrix" where
  "filter_tasks mode class_order indexes_to_classes task_id accumulated_inc [] t = Inr t"
| "filter_tasks mode class_order indexes_to_classes task_id accumulated_inc (inc # incs) t =
     (let labels = py_slice class_order accumulated_inc (accumulated_inc + inc);
          old_labels = py_slice class_order 0 accumulated_inc;
          all_labels = labels @ old_labels @ [0, 255]
      in case filter_samples mode labels all_labels task_id 0 indexes_to_classes t of
           Inl e \<Rightarrow> Inl e
         | Inr t' \<Rightarrow>
             filter_tasks mode class_order indexes_to_classes (Suc task_id)
               (accumulated_inc + inc) incs t')"

text \<open>
  \<open>_filter_images\<close>.  Decoding a label map (\<open>np.array(Image.open(path)).reshape(-1)\<close>)
  is outside the modelled files: \<open>pixels\<close> gives the flat pixel values of a path.
\<close>

definition filter_images ::
  "('p \<Rightarrow> int list) \<Rightarrow> 'p list \<Rightarrow> int list \<Rightarrow> int list \<Rightarrow> string \<Rightarrow> error + matrix" where
  "filter_images pixels paths increments class_order mode =
     (let indexes_to_classes = map (\<lambda>path. np_unique (pixels path)) paths;
          t = np_zeros (length paths) (length increments)
      in filter_tasks mode class_order indexes_to_classes 0 0 increments t)"

text \<open>
  Task \<open>t\<close>'s class slice of the class order: the prefix sums of the increments cut
  the class order into consecutive slices (\<open>_get_task_labels\<close> computes the same
  bounds, \<open>previous_inc = sum(increments[:t])\<close>).  The classes introduced before
  task \<open>t\<close> are the slices of the tasks \<open>0..t-1\<close>.
\<close>

definition task_slice :: "int list \<Rightarrow> int list \<Rightarrow> nat \<Rightarrow> int list" where
  "task_slice class_order increments t =
     (let previous_inc = sum_list (take t increments)
      in py_slice class_order previous_inc (previous_inc + increments ! t))"

definition earlier_classes :: "int list \<Rightarrow> int list \<Rightarrow> nat \<Rightarrow> int list" where
  "earlier_classes class_order increments t =
     concat (map (task_slice class_order increments) [0..<t])"

text \<open>Auxiliary notions for the loop invariants of the filter.\<close>

definition rect :: "nat \<Rightarrow> nat \<Rightarrow> matrix \<Rightarrow> bool" where
  "rect n m t = (length t = n \<and> (\<forall>i<n. length (t ! i) = m))"

definition selects :: "string \<Rightarrow> int list \<Rightarrow> int list \<Rightarrow> int list \<Rightarrow> bool" where
  "selects mode labels all_labels classes =
     (if mode = ''overlap'' then (\<exists>c \<in> set classes. c \<in> set labels)
      else (\<exists>c \<in> set classes. c \<in> set labels) \<and> (\<forall>c \<in> set classes. c \<in> set all_labels))"

definition labels_at :: "int list \<Rightarrow> int \<Rightarrow> int list \<Rightarrow> nat \<Rightarrow> int list" where
  "labels_at class_order acc incs k =
     py_slice class_order (acc + sum_list (take k incs)) (acc + sum_list (take k incs) + incs ! k)"

definition all_labels_at :: "int list \<Rightarrow> int \<Rightarrow> int list \<Rightarrow> nat \<Rightarrow> int list" where
  "all_labels_at class_order acc incs k =
     labels_at class_order acc incs k
       @ py_slice class_order 0 (acc + sum_list (take k incs)) @ [0, 255]"

section \<open>Segmentation scenario: construction and task access\<close>

text \<open>
  The fields of \<open>SegmentationClassIncremental\<close> that \<open>_setup\<close> and \<open>__getitem__\<close>
  read or write.  \<open>seg_cl_x\<close> and \<open>seg_cl_y\<close> are what \<open>cl_dataset.get_data()\<close> returns
  (samples and label-map paths), \<open>seg_train\<close> is \<open>cl_dataset.train\<close>, \<open>seg_increment\<close> is the
  increment specification handed to the increment resolver.
\<close>

record ('x, 'p, 'inc) seg_scenario =
  seg_mode :: string
  seg_test_background :: bool
  seg_nb_classes :: int
  seg_increment :: 'inc
  seg_initial_increment :: int
  seg_train :: bool
  seg_cl_x :: "'x list"
  seg_cl_y :: "'p list"
  seg_class_order :: "int list"
  seg_increments :: "int list"
  seg_dataset :: "'x list \<times> 'p list \<times> matrix"

text \<open>
  \<open>_setup\<close>.  The increment resolver \<open>_define_increments\<close> belongs to the base class
  and is a parameter; so is the label-map decoder.  The method returns the number of
  tasks together with the updated scenario.
\<close>

definition seg_setup ::
  "('p \<Rightarrow> int list) \<Rightarrow> ('inc \<Rightarrow> int \<Rightarrow> int list \<Rightarrow> error + int list) \<Rightarrow>
   ('x, 'p, 'inc) seg_scenario \<Rightarrow> error + (('x, 'p, 'inc) seg_scenario \<times> nat)" where
  "seg_setup pixels define_increments self =
     (let x = seg_cl_x self; y = seg_cl_y self;
          self = self\<lparr>seg_class_order := [1 .. seg_nb_classes self]\<rparr>
      in case define_increments (seg_increment self) (seg_initial_increment self) (seg_class_order self) of
           Inl e \<Rightarrow> Inl e
         | Inr incs \<Rightarrow>
             (let self = self\<lparr>seg_increments := incs\<rparr>
              in case filter_images pixels y (seg_increments self) (seg_class_order self) (seg_mode self) of
                   Inl e \<Rightarrow> Inl e
                 | Inr t \<Rightarrow>
                     (let self = self\<lparr>seg_dataset := (x, y, t)\<rparr>
                      in Inr (self, length (seg_increments self)))))"

text \<open>
  A task index is an integer or a slice \<open>start:stop:step\<close>.  The data selector
  \<open>_select_data_by_task\<close> of the base class returns the selected data and the
  normalised task index, an integer or a list of integers.
\<close>

datatype task_index = Index int | Slice "int option" "int option" "int option"

datatype task_ids = One int | Many "int list"

text \<open>
  \<open>_get_task_labels\<close>.  The Python set \<open>labels\<close> is a duplicate-free list; its
  iteration order plays no role below.
\<close>

fun collect_labels :: "int list \<Rightarrow> int list \<Rightarrow> int list \<Rightarrow> int list \<Rightarrow> error + int list" where
  "collect_labels class_order incs [] labels = Inr labels"
| "collect_labels class_order incs (t # ts) labels =
     (let previous_inc = sum_list (py_slice incs 0 t)
      in case py_index incs t of
           Inl e \<Rightarrow> Inl e
         | Inr inc \<Rightarrow>
             collect_labels class_order incs ts
               (remdups (labels @ py_slice class_order previous_inc (previous_inc + inc))))"

definition get_task_labels ::
  "('x, 'p, 'inc) seg_scenario \<Rightarrow> task_ids \<Rightarrow> error + int list" where
  "get_task_labels self task_indexes =
     (let task_indexes = (case task_indexes of One t \<Rightarrow> [t] | Many ts \<Rightarrow> ts)
      in collect_labels (seg_class_order self) (seg_increments self) task_indexes [])"

text \<open>
  The dictionary comprehension
  \<open>{label: self.class_order.index(label) for label in labels}\<close>, filled left to right.
\<close>

fun inverted_order_of ::
  "int list \<Rightarrow> int list \<Rightarrow> (int \<rightharpoonup> int) \<Rightarrow> error + (int \<rightharpoonup> int)" where
  "inverted_order_of class_order [] d = Inr d"
| "inverted_order_of class_order (label # labels) d =
     (case list_index class_order label of
        Inl e \<Rightarrow> Inl e
      | Inr k \<Rightarrow> inverted_order_of class_order labels (d(label \<mapsto> k)))"

text \<open>\<open>inverted_order.get(v, 0)\<close>.\<close>

definition dict_get :: "(int \<rightharpoonup> int) \<Rightarrow> int \<Rightarrow> int \<Rightarrow> int" where
  "dict_get d v dflt = (case d v of None \<Rightarrow> dflt | Some k \<Rightarrow> k)"

text \<open>
  The task bundle: the selected data and the label remapper \<open>target_trsf\<close>, applied
  to every pixel of a label map.
\<close>

record 'd task_set =
  selected :: 'd
  target_trsf :: "int \<Rightarrow> int"

text \<open>
  \<open>SegmentationClassIncremental.__getitem__\<close>.  With a mode other than the two known
  ones no branch assigns \<open>label_trsf\<close>, and building the bundle reads an unbound local.
\<close>

definition getitem ::
  "(('x, 'p, 'inc) seg_scenario \<Rightarrow> task_index \<Rightarrow> error + ('d \<times> task_ids)) \<Rightarrow>
   ('x, 'p, 'inc) seg_scenario \<Rightarrow> task_index \<Rightarrow> error + 'd task_set" where
  "getitem select_data_by_task self task_index =
     (if (case task_index of Slice start stop step \<Rightarrow> step \<noteq> None | Index i \<Rightarrow> False)
      then Inl ValueError
      else case select_data_by_task self task_index of
        Inl e \<Rightarrow> Inl e
      | Inr (xyt, task_index) \<Rightarrow>
          if seg_mode self = ''overlap'' \<or> seg_mode self = ''disjoint'' then
            (case get_task_labels self task_index of
               Inl e \<Rightarrow> Inl e
             | Inr labels \<Rightarrow>
                 (case inverted_order_of (seg_class_order self) labels Map.empty of
                    Inl e \<Rightarrow> Inl e
                  | Inr inverted_order \<Rightarrow>
                      (let inverted_order =
                             (if \<not> seg_train self then
                                (inverted_order(0 \<mapsto> (if seg_test_background self then 0 else 255)))
                                  (255 \<mapsto> 255)
                              else inverted_order)
                       in Inr \<lparr>selected = xyt,
                               target_trsf = (\<lambda>v. dict_get inverted_order v 0)\<rparr>)))
          else Inl UnboundLocalError)"

text \<open>
  Notions for stating the properties of task access.  \<open>task_list\<close> is the list the
  method iterates over; \<open>queried_classes\<close> is the union of the class slices of the
  selected tasks; \<open>labels_of_task\<close> is what one round of \<open>_get_task_labels\<close> adds;
  \<open>valid_access\<close> says that the index is no stepped slice, the mode is known and the
  selector returns task indexes within the increments; \<open>remap_of\<close> applies the
  remapper of an access outcome to a raw identifier.
\<close>

definition task_list :: "task_ids \<Rightarrow> int list" where
  "task_list ids = (case ids of One t \<Rightarrow> [t] | Many ts \<Rightarrow> ts)"

definition queried_classes :: "int list \<Rightarrow> int list \<Rightarrow> task_ids \<Rightarrow> int list" where
  "queried_classes co incs ids = concat (map (\<lambda>t. task_slice co incs (nat t)) (task_list ids))"

definition labels_of_task :: "int list \<Rightarrow> int list \<Rightarrow> int \<Rightarrow> int list" where
  "labels_of_task co incs t =
     (case py_index incs t of
        Inl e \<Rightarrow> []
      | Inr inc \<Rightarrow> py_slice co (sum_list (py_slice incs 0 t)) (sum_list (py_slice incs 0 t) + inc))"

definition valid_access ::
  "(('x, 'p, 'inc) seg_scenario \<Rightarrow> task_index \<Rightarrow> error + ('d \<times> task_ids)) \<Rightarrow>
   ('x, 'p, 'inc) seg_scenario \<Rightarrow> task_index \<Rightarrow> bool" where
  "valid_access select_data_by_task self task_index =
     ((case task_index of Slice start stop step \<Rightarrow> step = None | Index i \<Rightarrow> True)
      \<and> (seg_mode self = ''overlap'' \<or> seg_mode self = ''disjoint'')
      \<and> (case select_data_by_task self task_index of
            Inl e \<Rightarrow> False
          | Inr (xyt, ids) \<Rightarrow>
              list_all (\<lambda>t. - int (length (seg_increments self)) \<le> t
                            \<and> t < int (length (seg_increments self))) (task_list ids)))"

definition remap_of :: "error + 'd task_set \<Rightarrow> int \<Rightarrow> error + int" where
  "remap_of outcome v = (case outcome of Inl e \<Rightarrow> Inl e | Inr ts \<Rightarrow> Inr (target_trsf ts v))"

text \<open>
  Fixtures for the examples: a selector for integer indexes, two increment resolvers
  (one class per task; all classes in one task), and three scenarios.
\<close>

definition select_index ::
  "('x, 'p, 'inc) seg_scenario \<Rightarrow> task_index \<Rightarrow> error + (('x list \<times> 'p list \<times> matrix) \<times> task_ids)" where
  "select_index self task_index =
     (case task_index of
        Index i \<Rightarrow> Inr (seg_dataset self, One i)
      | Slice start stop step \<Rightarrow> Inl ExternalError)"

definition unit_increments :: "unit \<Rightarrow> int \<Rightarrow> int list \<Rightarrow> error + int list" where
  "unit_increments inc initial co = Inr (replicate (length co) 1)"

definition single_increment :: "unit \<Rightarrow> int \<Rightarrow> int list \<Rightarrow> error + int list" where
  "single_increment inc initial co = Inr [int (length co)]"

definition permuted_scenario :: "(unit, int list, unit) seg_scenario" where
  "permuted_scenario =
     \<lparr>seg_mode = ''overlap'', seg_test_background = True, seg_nb_classes = 3,
      seg_increment = (), seg_initial_increment = 0, seg_train = True,
      seg_cl_x = [()], seg_cl_y = [[0, 3]], seg_class_order = [3, 1, 2],
      seg_increments = [], seg_dataset = ([], [], [])\<rparr>"

definition wide_scenario :: "(unit, int list, unit) seg_scenario" where
  "wide_scenario =
     \<lparr>seg_mode = ''overlap'', seg_test_background = True, seg_nb_classes = 255,
      seg_increment = (), seg_initial_increment = 0, seg_train = False,
      seg_cl_x = [], seg_cl_y = [], seg_class_order = [1 .. 255],
      seg_increments = [255], seg_dataset = ([], [], [])\<rparr>"

definition two_task_test :: "(unit, int list, unit) seg_scenario" where
  "two_task_test =
     \<lparr>seg_mode = ''disjoint'', seg_test_background = False, seg_nb_classes = 2,
      seg_increment = (), seg_initial_increment = 0, seg_train = False,
      seg_cl_x = [()], seg_cl_y = [[1, 2]], seg_class_order = [1, 2],
      seg_increments = [1, 1], seg_dataset = ([()], [[1, 2]], [[0, 1]])\<rparr>"

section \<open>Transformation-incremental scenario\<close>

text \<open>
  The fields of \<open>TransformationIncremental\<close> used by task access: the dataset triple
  \<open>(x, y, t)\<close>, the per-task transformation chains, the base chain
  \<open>self.trsf.transforms\<close> and the number of tasks \<open>len(self)\<close>.  The task-index array
  holds doubles whose values are integers; each entry is modelled as the integer it equals.
\<close>

record ('x, 'y, 'tr) trsf_scenario =
  data_x :: 'x
  data_y :: "'y list"
  data_t :: "int list"
  inc_trsf :: "'tr list list"
  base_trsf :: "'tr list"
  nb_tasks :: nat

definition get_task_transformation ::
  "('x, 'y, 'tr) trsf_scenario \<Rightarrow> int \<Rightarrow> error + 'tr list" where
  "get_task_transformation self task_index =
     (case py_index (inc_trsf self) task_index of
        Inl e \<Rightarrow> Inl e
      | Inr chain \<Rightarrow> Inr (chain @ base_trsf self))"

text \<open>
  The conversion of a Python integer to a double, as the integer the double equals.
  Up to \<open>2 ^ 53\<close> in magnitude every integer is a double.  Beyond, the 53 leading bits
  are kept and the rest is rounded to nearest, ties to the even significand; an integer
  that rounds to \<open>2 ^ 1024\<close> or more has no double and the conversion raises.
  \<open>bit_length\<close> is \<open>int.bit_length\<close>.
\<close>

fun bit_length :: "nat \<Rightarrow> nat" where
  "bit_length n = (if n = 0 then 0 else Suc (bit_length (n div 2)))"

declare bit_length.simps [simp del]

definition float64_of_int :: "int \<Rightarrow> error + int" where
  "float64_of_int k =
     (let a = nat \<bar>k\<bar>
      in if a \<le> 2 ^ 53 then Inr k
         else
           (let e = bit_length a - 53;
                q = a div 2 ^ e;
                r = a mod 2 ^ e;
                q' = (if 2 ^ e < 2 * r \<or> (2 * r = 2 ^ e \<and> odd q) then q + 1 else q);
                v = q' * 2 ^ e
            in if 2 ^ 1024 \<le> v then Inl OverflowError else Inr (sgn k * int v)))"

text \<open>
  \<open>np.ones(n) * task_index\<close>: every one of the \<open>n\<close> entries \<open>1.0\<close> is multiplied
  by the index converted to a double.
\<close>

definition np_ones_times :: "nat \<Rightarrow> int \<Rightarrow> error + int list" where
  "np_ones_times n task_index =
     (if n = 0 then Inr []
      else case float64_of_int task_index of
             Inl e \<Rightarrow> Inl e
           | Inr v \<Rightarrow> Inr (map (\<lambda>one. one * v) (replicate n 1)))"

text \<open>
  \<open>update_task_indexes\<close>.  When the product raises, \<open>self.dataset\<close> is not assigned.
\<close>

definition update_task_indexes ::
  "('x, 'y, 'tr) trsf_scenario \<Rightarrow> int \<Rightarrow> error + ('x, 'y, 'tr) trsf_scenario" where
  "update_task_indexes self task_index =
     (case np_ones_times (length (data_y self)) task_index of
        Inl e \<Rightarrow> Inl e
      | Inr new_t \<Rightarrow> Inr (self\<lparr>data_t := new_t\<rparr>))"

text \<open>
  \<open>while task_index < 0: task_index += len(self)\<close>.  With no task the loop never
  ends: not returning is the result \<open>None\<close>.
\<close>

partial_function (option) wrap_negative :: "nat \<Rightarrow> int \<Rightarrow> int option" where
  "wrap_negative n task_index =
     (if task_index < 0 then wrap_negative n (task_index + int n) else Some task_index)"

text \<open>The index check at the head of \<open>__getitem__\<close>: slices are refused, negative
  integers wrapped.\<close>

definition normalize_index ::
  "('x, 'y, 'tr) trsf_scenario \<Rightarrow> task_index \<Rightarrow> (error + int) option" where
  "normalize_index self task_index =
     (case task_index of
        Slice start stop step \<Rightarrow> Some (Inl ValueError)
      | Index i \<Rightarrow>
          (if i < 0 then map_option Inr (wrap_negative (nb_tasks self) i)
           else Some (Inr i)))"

record ('d, 'tr) trsf_task_set =
  train_data :: 'd
  task_trsf :: "'tr list"

text \<open>
  \<open>TransformationIncremental.__getitem__\<close>: the outcome and the scenario after the
  call, \<open>None\<close> when the call does not return.  The data selector of the base class is
  a parameter; it reads the scenario after the task indexes were rewritten.
\<close>

definition trsf_getitem ::
  "(('x, 'y, 'tr) trsf_scenario \<Rightarrow> int \<Rightarrow> error + 'd) \<Rightarrow>
   ('x, 'y, 'tr) trsf_scenario \<Rightarrow> task_index \<Rightarrow>
   ((error + ('d, 'tr) trsf_task_set) \<times> ('x, 'y, 'tr) trsf_scenario) option" where
  "trsf_getitem select_data_by_task self task_index =
     (case normalize_index self task_index of
        None \<Rightarrow> None
      | Some (Inl e) \<Rightarrow> Some (Inl e, self)
      | Some (Inr task_index) \<Rightarrow>
          (case update_task_indexes self task_index of
             Inl e \<Rightarrow> Some (Inl e, self)
           | Inr self \<Rightarrow>
               (case select_data_by_task self task_index of
                  Inl e \<Rightarrow> Some (Inl e, self)
                | Inr train \<Rightarrow>
                    (case get_task_transformation self task_index of
                       Inl e \<Rightarrow> Some (Inl e, self)
                     | Inr tr \<Rightarrow> Some (Inr \<lparr>train_data = train, task_trsf = tr\<rparr>, self)))))"

text \<open>The scenario with every sample recorded in task \<open>t\<close>.\<close>

definition with_task_indexes ::
  "('x, 'y, 'tr) trsf_scenario \<Rightarrow> int \<Rightarrow> ('x, 'y, 'tr) trsf_scenario" where
  "with_task_indexes self t = self\<lparr>data_t := replicate (length (data_y self)) t\<rparr>"

text \<open>
  Fixtures for the examples: a selector in the manner of the base class (the labels of
  the samples whose recorded task is the one asked for) and a scenario of three samples
  and four rotation tasks.
\<close>

definition select_matching :: "('x, 'y, 'tr) trsf_scenario \<Rightarrow> int \<Rightarrow> error + 'y list" where
  "select_matching self task_index =
     Inr (map fst (filter (\<lambda>(y, t). t = task_index) (zip (data_y self) (data_t self))))"

definition four_tasks :: "(unit, int, string) trsf_scenario" where
  "four_tasks =
     \<lparr>data_x = (), data_y = [7, 8, 9], data_t = [0, 0, 0],
      inc_trsf = [[''rot0''], [''rot90''], [''rot180''], [''rot270'']],
      base_trsf = [''to_tensor''], nb_tasks = 4\<rparr>"


section \<open>The loops of the membership filter\<close>

lemma rect_np_zeros: "rect n m (np_zeros n m)"
  by (simp add: rect_def np_zeros_def)

lemma np_zeros_nth: "i < n \<Longrightarrow> j < m \<Longrightarrow> np_zeros n m ! i ! j = 0"
  by (simp add: np_zeros_def)

lemma rect_row: "rect n m t \<Longrightarrow> i < n \<Longrightarrow> length (t ! i) = m"
  by (simp add: rect_def)

lemma rect_update: "rect n m t \<Longrightarrow> rect n m (t[i := (t ! i)[j := v]])"
proof -
  assume r: "rect n m t"
  have "length (t[i := (t ! i)[j := v]] ! k) = m" if "k < n" for k
    using r that by (cases "k = i") (simp_all add: rect_def)
  with r show ?thesis by (simp add: rect_def)
qed

lemma set_cell_rect:
  "rect n m t \<Longrightarrow> i < n \<Longrightarrow> j < m \<Longrightarrow> set_cell t i j v = Inr (t[i := (t ! i)[j := v]])"
  by (simp add: set_cell_def rect_def)

lemma update_nth:
  "rect n m t \<Longrightarrow> i' < n \<Longrightarrow> j' < m \<Longrightarrow>
   t[i := (t ! i)[j := v]] ! i' ! j' = (if i' = i \<and> j' = j then v else t ! i' ! j')"
  by (cases "i' = i"; cases "j' = j") (simp_all add: rect_def)

lemma filter_body_ok:
  assumes "mode = ''overlap'' \<or> mode = ''disjoint''" "rect n m t" "index < n" "task_id < m"
  shows "\<exists>t'. filter_body mode labels all_labels task_id index classes t = Inr t'
           \<and> rect n m t'
           \<and> (\<forall>i<n. \<forall>j<m. t' ! i ! j =
                (if i = index \<and> j = task_id \<and> selects mode labels all_labels classes then 1
                 else t ! i ! j))"
  using assms
  by (auto simp: filter_body_def selects_def list_ex_iff list_all_iff set_cell_rect
        rect_update update_nth)

lemma filter_samples_ok:
  assumes "mode = ''overlap'' \<or> mode = ''disjoint''" "rect n m t"
    "index + length cs \<le> n" "task_id < m"
  shows "\<exists>t'. filter_samples mode labels all_labels task_id index cs t = Inr t'
           \<and> rect n m t'
           \<and> (\<forall>i<n. \<forall>j<m. t' ! i ! j =
                (if j = task_id \<and> index \<le> i \<and> i < index + length cs
                    \<and> selects mode labels all_labels (cs ! (i - index)) then 1
                 else t ! i ! j))"
  using assms
proof (induction cs arbitrary: index t)
  case Nil
  then show ?case by simp
next
  case (Cons classes rest)
  from Cons.prems have idx: "index < n" by simp
  from filter_body_ok[OF Cons.prems(1,2) idx Cons.prems(4)]
  obtain t1 where b: "filter_body mode labels all_labels task_id index classes t = Inr t1"
    and r1: "rect n m t1"
    and c1: "\<forall>i<n. \<forall>j<m. t1 ! i ! j =
                (if i = index \<and> j = task_id \<and> selects mode labels all_labels classes then 1
                 else t ! i ! j)"
    by blast
  from Cons.prems have len: "Suc index + length rest \<le> n" by simp
  from Cons.IH[OF Cons.prems(1) r1 len Cons.prems(4)]
  obtain t2 where s: "filter_samples mode labels all_labels task_id (Suc index) rest t1 = Inr t2"
    and r2: "rect n m t2"
    and c2: "\<forall>i<n. \<forall>j<m. t2 ! i ! j =
                (if j = task_id \<and> Suc index \<le> i \<and> i < Suc index + length rest
                    \<and> selects mode labels all_labels (rest ! (i - Suc index)) then 1
                 else t1 ! i ! j)"
    by blast
  have "\<forall>i<n. \<forall>j<m. t2 ! i ! j =
                (if j = task_id \<and> index \<le> i \<and> i < index + length (classes # rest)
                    \<and> selects mode labels all_labels ((classes # rest) ! (i - index)) then 1
                 else t ! i ! j)"
  proof (intro allI impI)
    fix i j assume ij: "i < n" "j < m"
    show "t2 ! i ! j =
                (if j = task_id \<and> index \<le> i \<and> i < index + length (classes # rest)
                    \<and> selects mode labels all_labels ((classes # rest) ! (i - index)) then 1
                 else t ! i ! j)"
    proof (cases "i = index")
      case True
      then show ?thesis using c1 c2 ij by simp
    next
      case False
      then have "index \<le> i \<Longrightarrow> (classes # rest) ! (i - index) = rest ! (i - Suc index)"
        by (simp add: nth_Cons')
      then show ?thesis using c1 c2 ij False by auto
    qed
  qed
  with b s r2 show ?case by simp
qed


lemma labels_at_0 [simp]:
  "labels_at co acc (inc # incs) 0 = py_slice co acc (acc + inc)"
  by (simp add: labels_at_def)

lemma labels_at_Suc [simp]:
  "labels_at co acc (inc # incs) (Suc k) = labels_at co (acc + inc) incs k"
  by (simp add: labels_at_def add.assoc)

lemma all_labels_at_0 [simp]:
  "all_labels_at co acc (inc # incs) 0
     = py_slice co acc (acc + inc) @ py_slice co 0 acc @ [0, 255]"
  by (simp add: all_labels_at_def)

lemma all_labels_at_Suc [simp]:
  "all_labels_at co acc (inc # incs) (Suc k) = all_labels_at co (acc + inc) incs k"
  by (simp add: all_labels_at_def add.assoc)

lemma filter_tasks_ok:
  assumes "mode = ''overlap'' \<or> mode = ''disjoint''" "rect n m t"
    "length itc = n" "task_id + length incs \<le> m"
  shows "\<exists>t'. filter_tasks mode co itc task_id acc incs t = Inr t'
           \<and> rect n m t'
           \<and> (\<forall>i<n. \<forall>j<m. t' ! i ! j =
                (if task_id \<le> j \<and> j < task_id + length incs
                    \<and> selects mode (labels_at co acc incs (j - task_id))
                          (all_labels_at co acc incs (j - task_id)) (itc ! i) then 1
                 else t ! i ! j))"
  using assms
proof (induction incs arbitrary: task_id acc t)
  case Nil
  then show ?case by simp
next
  case (Cons inc incs)
  let ?labels = "py_slice co acc (acc + inc)"
  let ?all = "?labels @ py_slice co 0 acc @ [0, 255]"
  from Cons.prems have tid: "task_id < m" and len0: "0 + length itc \<le> n" by simp_all
  from filter_samples_ok[OF Cons.prems(1,2) len0 tid, of ?labels ?all]
  obtain t1 where s1: "filter_samples mode ?labels ?all task_id 0 itc t = Inr t1"
    and r1: "rect n m t1"
    and c1: "\<forall>i<n. \<forall>j<m. t1 ! i ! j =
                (if j = task_id \<and> selects mode ?labels ?all (itc ! i) then 1 else t ! i ! j)"
    using Cons.prems(3) by auto
  from Cons.prems have len: "Suc task_id + length incs \<le> m" by simp
  from Cons.IH[OF Cons.prems(1) r1 Cons.prems(3) len, of "acc + inc"]
  obtain t2 where s2: "filter_tasks mode co itc (Suc task_id) (acc + inc) incs t1 = Inr t2"
    and r2: "rect n m t2"
    and c2: "\<forall>i<n. \<forall>j<m. t2 ! i ! j =
                (if Suc task_id \<le> j \<and> j < Suc task_id + length incs
                    \<and> selects mode (labels_at co (acc + inc) incs (j - Suc task_id))
                          (all_labels_at co (acc + inc) incs (j - Suc task_id)) (itc ! i) then 1
                 else t1 ! i ! j)"
    by blast
  have run: "filter_tasks mode co itc task_id acc (inc # incs) t = Inr t2"
    using s1 s2 by (simp add: Let_def)
  have "t2 ! i ! j =
          (if task_id \<le> j \<and> j < task_id + length (inc # incs)
              \<and> selects mode (labels_at co acc (inc # incs) (j - task_id))
                    (all_labels_at co acc (inc # incs) (j - task_id)) (itc ! i) then 1
           else t ! i ! j)" if ij: "i < n" "j < m" for i j
  proof (cases "j = task_id")
    case True
    then show ?thesis using c1 c2 ij by simp
  next
    case False
    show ?thesis
    proof (cases "task_id < j")
      case True
      then obtain k where k: "j - task_id = Suc k" "j - Suc task_id = k"
        by (metis Suc_diff_Suc)
      show ?thesis using c1 c2 ij True False k by simp
    next
      case False
      then show ?thesis using c1 c2 ij \<open>j \<noteq> task_id\<close> by simp
    qed
  qed
  with run r2 show ?case by blast
qed

lemma filter_images_cells:
  assumes "mode = ''overlap'' \<or> mode = ''disjoint''"
  shows "\<exists>t. filter_images pixels paths increments class_order mode = Inr t
           \<and> rect (length paths) (length increments) t
           \<and> (\<forall>i<length paths. \<forall>j<length increments. t ! i ! j =
                (if selects mode (labels_at class_order 0 increments j)
                      (all_labels_at class_order 0 increments j) (np_unique (pixels (paths ! i)))
                 then 1 else 0))"
proof -
  let ?itc = "map (\<lambda>path. np_unique (pixels path)) paths"
  have "length ?itc = length paths" "0 + length increments \<le> length increments" by simp_all
  from filter_tasks_ok[OF assms rect_np_zeros this, of class_order 0]
  show ?thesis
    by (auto simp: filter_images_def Let_def np_zeros_nth)
qed

section \<open>The membership filter against its specification\<close>

lemma labels_at_task_slice: "labels_at co 0 incs j = task_slice co incs j"
  by (simp add: labels_at_def task_slice_def Let_def)

lemma set_np_unique: "set (np_unique vs) = set vs"
  by (simp add: np_unique_def)

lemma py_slice_prefix:
  "0 \<le> a \<Longrightarrow> py_slice xs 0 a = take (nat a) xs"
  by (simp add: py_slice_def slice_bound_def Let_def min_def)

lemma py_slice_split:
  assumes "0 \<le> a" "0 \<le> i"
  shows "py_slice xs 0 (a + i) = py_slice xs 0 a @ py_slice xs a (a + i)"
proof -
  let ?n = "length xs"
  let ?l = "min (nat a) ?n" and ?h = "min (nat (a + i)) ?n"
  have "nat a \<le> nat (a + i)" using assms by linarith
  then have le: "?l \<le> ?h" by (rule min.mono) simp
  have "take ?h xs = take (?l + (?h - ?l)) xs" using le by simp
  also have "\<dots> = take ?l xs @ take (?h - ?l) (drop ?l xs)" by (rule take_add)
  finally show ?thesis using assms
    by (simp add: py_slice_def slice_bound_def Let_def)
qed

lemma sum_list_take_nonneg:
  "\<forall>inc \<in> set incs. (0::int) \<le> inc \<Longrightarrow> 0 \<le> sum_list (take t incs)"
  by (meson in_set_takeD sum_list_nonneg)

lemma old_labels_earlier:
  assumes "\<forall>inc \<in> set incs. 0 \<le> inc" "t \<le> length incs"
  shows "py_slice co 0 (sum_list (take t incs)) = earlier_classes co incs t"
  using assms(2)
proof (induction t)
  case 0
  then show ?case by (simp add: earlier_classes_def py_slice_def slice_bound_def)
next
  case (Suc t)
  then have t: "t < length incs" by simp
  have a: "0 \<le> sum_list (take t incs)" using assms(1) by (rule sum_list_take_nonneg)
  have i: "0 \<le> incs ! t" using assms(1) t by simp
  have "sum_list (take (Suc t) incs) = sum_list (take t incs) + incs ! t"
    using t by (simp add: take_Suc_conv_app_nth)
  then have "py_slice co 0 (sum_list (take (Suc t) incs))
      = py_slice co 0 (sum_list (take t incs)) @ task_slice co incs t"
    using py_slice_split[OF a i] by (simp add: task_slice_def Let_def)
  with Suc.IH t show ?case by (simp add: earlier_classes_def)
qed

text \<open>
  Claim C1.  In overlap mode the filter returns a matrix with one row per sample and one
  column per task, and the cell of sample \<open>i\<close> and task \<open>t\<close> is 1 exactly when the
  classes present in the sample meet the class slice of task \<open>t\<close> (otherwise it is 0).
  Nothing makes the tasks exclusive: the witness shows one sample in two tasks.
\<close>

theorem overlap_membership:
  assumes "i < length paths" "t < length increments"
  shows "\<exists>m. filter_images pixels paths increments class_order ''overlap'' = Inr m
           \<and> length m = length paths \<and> length (m ! i) = length increments
           \<and> (m ! i ! t = 1 \<or> m ! i ! t = 0)
           \<and> (m ! i ! t = 1 \<longleftrightarrow>
                set (np_unique (pixels (paths ! i))) \<inter> set (task_slice class_order increments t) \<noteq> {})"
proof -
  from filter_images_cells[of "''overlap''" pixels paths increments class_order]
  obtain m where m: "filter_images pixels paths increments class_order ''overlap'' = Inr m"
    and r: "rect (length paths) (length increments) m"
    and c: "\<forall>i<length paths. \<forall>j<length increments. m ! i ! j =
                (if selects ''overlap'' (labels_at class_order 0 increments j)
                      (all_labels_at class_order 0 increments j) (np_unique (pixels (paths ! i)))
                 then 1 else 0)"
    by auto
  from c assms have cell: "m ! i ! t =
      (if selects ''overlap'' (task_slice class_order increments t)
            (all_labels_at class_order 0 increments t) (np_unique (pixels (paths ! i)))
       then 1 else 0)"
    by (simp add: labels_at_task_slice)
  have "selects ''overlap'' (task_slice class_order increments t)
            (all_labels_at class_order 0 increments t) (np_unique (pixels (paths ! i)))
        \<longleftrightarrow> set (np_unique (pixels (paths ! i))) \<inter> set (task_slice class_order increments t) \<noteq> {}"
    by (auto simp: selects_def)
  with cell m r assms show ?thesis by (auto simp: rect_def)
qed

text \<open>
  Claim C2.  In disjoint mode, for increments that are not negative, the cell of sample
  \<open>i\<close> and task \<open>t\<close> is 1 exactly when the sample's classes meet the slice of task
  \<open>t\<close> and all of them lie in that slice, the slices of the earlier tasks, or
  \<open>{0, 255}\<close>.
\<close>

theorem disjoint_membership:
  assumes "\<forall>inc \<in> set increments. 0 \<le> inc" "i < length paths" "t < length increments"
  shows "\<exists>m. filter_images pixels paths increments class_order ''disjoint'' = Inr m
           \<and> (m ! i ! t = 1 \<or> m ! i ! t = 0)
           \<and> (m ! i ! t = 1 \<longleftrightarrow>
                set (np_unique (pixels (paths ! i))) \<inter> set (task_slice class_order increments t) \<noteq> {}
                \<and> set (np_unique (pixels (paths ! i)))
                    \<subseteq> set (task_slice class_order increments t)
                      \<union> set (earlier_classes class_order increments t) \<union> {0, 255})"
proof -
  from filter_images_cells[of "''disjoint''" pixels paths increments class_order]
  obtain m where m: "filter_images pixels paths increments class_order ''disjoint'' = Inr m"
    and c: "\<forall>i<length paths. \<forall>j<length increments. m ! i ! j =
                (if selects ''disjoint'' (labels_at class_order 0 increments j)
                      (all_labels_at class_order 0 increments j) (np_unique (pixels (paths ! i)))
                 then 1 else 0)"
    by auto
  have old: "py_slice class_order 0 (sum_list (take t increments))
               = earlier_classes class_order increments t"
    using assms(1,3) by (simp add: old_labels_earlier)
  have all: "set (all_labels_at class_order 0 increments t)
      = set (task_slice class_order increments t)
          \<union> set (earlier_classes class_order increments t) \<union> {0, 255}"
    using old by (auto simp: all_labels_at_def labels_at_task_slice)
  from c assms have cell: "m ! i ! t =
      (if selects ''disjoint'' (task_slice class_order increments t)
            (all_labels_at class_order 0 increments t) (np_unique (pixels (paths ! i)))
       then 1 else 0)"
    by (simp add: labels_at_task_slice)
  have "selects ''disjoint'' (task_slice class_order increments t)
            (all_labels_at class_order 0 increments t) (np_unique (pixels (paths ! i)))
        \<longleftrightarrow> set (np_unique (pixels (paths ! i))) \<inter> set (task_slice class_order increments t) \<noteq> {}
                \<and> set (np_unique (pixels (paths ! i)))
                    \<subseteq> set (task_slice class_order increments t)
                      \<union> set (earlier_classes class_order increments t) \<union> {0, 255}"
    unfolding selects_def all by auto
  with cell m show ?thesis by auto
qed


text \<open>The sample with classes 1 and 2 belongs to both tasks of the order \<open>[1, 2]\<close>.\<close>

theorem overlap_membership_witness:
  "(0::nat) < length [[1, 2::int]] \<and> (1::nat) < length [1, 1::int]
   \<and> (\<exists>m. filter_images id [[1, 2]] [1, 1] [1, 2] ''overlap'' = Inr m
          \<and> m ! 0 ! 0 = 1 \<and> m ! 0 ! 1 = 1)"
  using overlap_membership[of 0 "[[1, 2]]" 0 "[1, 1]" id "[1, 2]"]
    overlap_membership[of 0 "[[1, 2]]" 1 "[1, 1]" id "[1, 2]"]
  by (auto simp: task_slice_def np_unique_def py_slice_def slice_bound_def)

text \<open>The sample with classes 1 and 2 belongs to task 1 of the order \<open>[1, 2]\<close>.\<close>

theorem disjoint_membership_witness:
  "list_all (\<lambda>inc. 0 \<le> inc) [1, 1::int] \<and> (0::nat) < length [[1, 2::int]]
   \<and> (1::nat) < length [1, 1::int]
   \<and> (\<exists>m. filter_images id [[1, 2]] [1, 1] [1, 2] ''disjoint'' = Inr m \<and> m ! 0 ! 1 = 1)"
  using disjoint_membership[of "[1, 1]" 0 "[[1, 2]]" 1 id "[1, 2]"]
  by (auto simp: task_slice_def earlier_classes_def np_unique_def py_slice_def slice_bound_def)

text \<open>
  Claim C3 says that a sample with classes \<open>{1, 2}\<close>, class 1 introduced by task 0 and
  class 2 by task 1, gets an all-zero row in disjoint mode.  The code gives the row
  \<open>[0, 1]\<close>: task 1 accepts class 1 as a class of an earlier task.
\<close>

theorem disjoint_fixture_counterexample:
  "filter_images id [[1, 2]] [1, 1] [1, 2] ''disjoint'' = Inr [[0, 1]]"
  by (simp add: filter_images_def np_zeros_def np_unique_def py_slice_def slice_bound_def
      filter_body_def set_cell_def)

text \<open>
  Claim C3, amended.  In disjoint mode a sample whose classes are exactly \<open>a\<close> and
  \<open>b\<close>, with \<open>a\<close> introduced alone by task 0 and \<open>b\<close> (a real class, neither
  background nor void) alone by task 1, is not assigned to task 0 and is assigned to
  task 1.
\<close>

theorem disjoint_later_task_takes_sample:
  assumes "i < length paths" "set (pixels (paths ! i)) = {a, b}" "a \<noteq> b" "b \<noteq> 0" "b \<noteq> 255"
  shows "\<exists>m. filter_images pixels paths (1 # 1 # incs) (a # b # rest) ''disjoint'' = Inr m
           \<and> m ! i ! 0 = 0 \<and> m ! i ! 1 = 1"
proof -
  let ?co = "a # b # rest" and ?incs = "1 # 1 # incs"
  from filter_images_cells[of "''disjoint''" pixels paths ?incs ?co]
  obtain m where m: "filter_images pixels paths ?incs ?co ''disjoint'' = Inr m"
    and c: "\<forall>i<length paths. \<forall>j<length ?incs. m ! i ! j =
                (if selects ''disjoint'' (labels_at ?co 0 ?incs j)
                      (all_labels_at ?co 0 ?incs j) (np_unique (pixels (paths ! i)))
                 then 1 else 0)"
    by auto
  have cls: "set (np_unique (pixels (paths ! i))) = {a, b}"
    using assms(2) by (simp add: set_np_unique)
  have s0: "py_slice ?co 0 1 = [a]" and s1: "py_slice ?co 1 2 = [b]"
    and s00: "py_slice ?co 0 0 = []"
    by (simp_all add: py_slice_def slice_bound_def)
  have "m ! i ! 0 = 0"
    using c[rule_format, of i 0] assms(1,3-5)
    by (simp add: selects_def cls s0 s00)
  moreover have "m ! i ! Suc 0 = 1"
    using c[rule_format, of i "Suc 0"] assms(1)
    by (simp add: selects_def cls s0 s1)
  ultimately show ?thesis using m by simp
qed

text \<open>The fixture of the claim: classes 1 and 2, order \<open>[1, 2]\<close>, increments \<open>[1, 1]\<close>.\<close>

theorem disjoint_later_task_takes_sample_witness:
  "(0::nat) < length [[1, 2::int]] \<and> set (id ([[1, 2]] ! 0)) = {1, 2::int}
   \<and> (1::int) \<noteq> 2 \<and> (2::int) \<noteq> 0 \<and> (2::int) \<noteq> 255
   \<and> (\<exists>m. filter_images id [[1, 2]] [1, 1] [1, 2] ''disjoint'' = Inr m
          \<and> m ! 0 ! 0 = 0 \<and> m ! 0 ! 1 = 1)"
  using disjoint_later_task_takes_sample[of 0 "[[1, 2]]" id 1 2 "[]" "[]"]
  by simp

text \<open>
  Claim C9.  On the same inputs both modes return a matrix, and every cell of the
  disjoint matrix is below the cell of the overlap matrix: membership in disjoint mode
  implies membership in overlap mode.
\<close>

theorem disjoint_implies_overlap:
  "\<exists>md mo. filter_images pixels paths increments class_order ''disjoint'' = Inr md
     \<and> filter_images pixels paths increments class_order ''overlap'' = Inr mo
     \<and> (\<forall>i<length paths. \<forall>t<length increments.
           (md ! i ! t = 1 \<longrightarrow> mo ! i ! t = 1) \<and> md ! i ! t \<le> mo ! i ! t)"
proof -
  from filter_images_cells[of "''disjoint''" pixels paths increments class_order]
  obtain md where md: "filter_images pixels paths increments class_order ''disjoint'' = Inr md"
    and cd: "\<forall>i<length paths. \<forall>j<length increments. md ! i ! j =
                (if selects ''disjoint'' (labels_at class_order 0 increments j)
                      (all_labels_at class_order 0 increments j) (np_unique (pixels (paths ! i)))
                 then 1 else 0)"
    by auto
  from filter_images_cells[of "''overlap''" pixels paths increments class_order]
  obtain mo where mo: "filter_images pixels paths increments class_order ''overlap'' = Inr mo"
    and co: "\<forall>i<length paths. \<forall>j<length increments. mo ! i ! j =
                (if selects ''overlap'' (labels_at class_order 0 increments j)
                      (all_labels_at class_order 0 increments j) (np_unique (pixels (paths ! i)))
                 then 1 else 0)"
    by auto
  have imp: "selects ''disjoint'' ls als cs \<Longrightarrow> selects ''overlap'' ls als cs" for ls als cs
    by (simp add: selects_def)
  have "(md ! i ! t = 1 \<longrightarrow> mo ! i ! t = 1) \<and> md ! i ! t \<le> mo ! i ! t"
    if "i < length paths" "t < length increments" for i t
    using cd co that imp by simp
  with md mo show ?thesis by blast
qed

text \<open>A cell set in both matrices: sample 0, task 1 of the fixture above.\<close>

theorem disjoint_implies_overlap_witness:
  "\<exists>md mo. filter_images id [[1, 2]] [1, 1] [1, 2] ''disjoint'' = Inr md
     \<and> filter_images id [[1, 2]] [1, 1] [1, 2] ''overlap'' = Inr mo
     \<and> (0::nat) < length [[1, 2::int]] \<and> (1::nat) < length [1, 1::int]
     \<and> md ! 0 ! 1 = 1 \<and> mo ! 0 ! 1 = 1"
  using disjoint_implies_overlap[of id "[[1, 2]]" "[1, 1]" "[1, 2]"]
  by (simp add: filter_images_def np_zeros_def np_unique_def py_slice_def slice_bound_def
      filter_body_def set_cell_def)

section \<open>Transformation-incremental task access\<close>

lemma wrap_negative_nonneg: "0 \<le> t \<Longrightarrow> wrap_negative n t = Some t"
  by (subst wrap_negative.simps) simp

lemma wrap_negative_mod:
  assumes "0 < n"
  shows "t < 0 \<Longrightarrow> wrap_negative n t = Some (t mod int n)"
proof (induction "nat (- t)" arbitrary: t rule: less_induct)
  case less
  have step: "wrap_negative n t = wrap_negative n (t + int n)"
    using less.prems by (subst wrap_negative.simps) simp
  show ?case
  proof (cases "t + int n < 0")
    case True
    have "nat (- (t + int n)) < nat (- t)" using assms less.prems True by linarith
    from less.hyps[OF this True] have "wrap_negative n (t + int n) = Some ((t + int n) mod int n)" .
    then show ?thesis using step by simp
  next
    case False
    then have "wrap_negative n (t + int n) = Some (t + int n)"
      by (simp add: wrap_negative_nonneg)
    moreover have "t mod int n = t + int n"
      using False less.prems assms
      by (metis add.commute mod_add_self1 mod_pos_pos_trivial not_less add_less_same_cancel2)
    ultimately show ?thesis using step by simp
  qed
qed

lemma wrap_negative_returns: "wrap_negative n t = Some r \<Longrightarrow> n = 0 \<Longrightarrow> 0 \<le> t"
proof (induction rule: wrap_negative.raw_induct[rotated 1, consumes 1])
  case (1 f n t r)
  then show ?case by (fastforce split: if_splits)
qed

lemma wrap_negative_no_task: "t < 0 \<Longrightarrow> wrap_negative 0 t = None"
  using wrap_negative_returns[of 0 t] by (cases "wrap_negative 0 t") auto








lemma float64_exact: "\<bar>t\<bar> \<le> 2 ^ 53 \<Longrightarrow> float64_of_int t = Inr t"
proof -
  assume "\<bar>t\<bar> \<le> 2 ^ 53"
  then have "nat \<bar>t\<bar> \<le> nat (2 ^ 53)" by (rule nat_mono)
  then have "nat \<bar>t\<bar> \<le> 2 ^ 53" by simp
  then show ?thesis by (simp add: float64_of_int_def Let_def)
qed

lemma update_task_indexes_exact:
  assumes "float64_of_int t = Inr t"
  shows "update_task_indexes self t = Inr (with_task_indexes self t)"
  using assms
  by (simp add: update_task_indexes_def np_ones_times_def with_task_indexes_def)


lemma with_task_indexes_fields:
  "data_t (with_task_indexes self t) = replicate (length (data_y self)) t"
  "data_y (with_task_indexes self t) = data_y self"
  "data_x (with_task_indexes self t) = data_x self"
  "inc_trsf (with_task_indexes self t) = inc_trsf self"
  "base_trsf (with_task_indexes self t) = base_trsf self"
  "nb_tasks (with_task_indexes self t) = nb_tasks self"
  by (simp_all add: with_task_indexes_def)

lemma normalize_index_nonneg: "0 \<le> t \<Longrightarrow> normalize_index self (Index t) = Some (Inr t)"
  by (simp add: normalize_index_def)

lemma trsf_getitem_nonneg:
  assumes "0 \<le> t"
  shows "trsf_getitem sel self (Index t) =
     (case update_task_indexes self t of
        Inl e \<Rightarrow> Some (Inl e, self)
      | Inr self' \<Rightarrow>
          (case sel self' t of
             Inl e \<Rightarrow> Some (Inl e, self')
           | Inr d \<Rightarrow>
               (case get_task_transformation self' t of
                  Inl e \<Rightarrow> Some (Inl e, self')
                | Inr tr \<Rightarrow> Some (Inr \<lparr>train_data = d, task_trsf = tr\<rparr>, self'))))"
  using assms by (simp add: trsf_getitem_def normalize_index_nonneg)

lemma trsf_getitem_exact:
  assumes "0 \<le> t" "t \<le> 2 ^ 53"
  shows "trsf_getitem sel self (Index t) =
     (case sel (with_task_indexes self t) t of
        Inl e \<Rightarrow> Some (Inl e, with_task_indexes self t)
      | Inr d \<Rightarrow>
          (case get_task_transformation (with_task_indexes self t) t of
             Inl e \<Rightarrow> Some (Inl e, with_task_indexes self t)
           | Inr tr \<Rightarrow> Some (Inr \<lparr>train_data = d, task_trsf = tr\<rparr>, with_task_indexes self t)))"
proof -
  from assms have "\<bar>t\<bar> \<le> 2 ^ 53" by simp
  then have "update_task_indexes self t = Inr (with_task_indexes self t)"
    by (intro update_task_indexes_exact float64_exact)
  then show ?thesis using assms(1) by (simp add: trsf_getitem_nonneg)
qed


lemma get_task_transformation_in_range:
  "0 \<le> t \<Longrightarrow> t < int (length (inc_trsf self)) \<Longrightarrow>
   get_task_transformation self t = Inr (inc_trsf self ! nat t @ base_trsf self)"
  by (simp add: get_task_transformation_def py_index_def)


text \<open>
  Claim C7.  An access with an index \<open>t\<close> that is not negative, within the range in
  which the array holds every integer exactly, returns, and after it the task-index
  array has one entry per sample, every entry equal to \<open>t\<close>; the labels are untouched.
  When the selector succeeds and \<open>t\<close> is below the number of chains, the bundle carries
  task \<open>t\<close>'s chain followed by the base chain.  A later access with \<open>u\<close> rewrites the
  whole array to \<open>u\<close>: only the last access shows.
\<close>

theorem task_indexes_after_access:
  assumes "0 \<le> t" "t \<le> 2 ^ 53"
  shows "update_task_indexes self t = Inr (with_task_indexes self t)
       \<and> (\<exists>r. trsf_getitem sel self (Index t) = Some (r, with_task_indexes self t))
       \<and> length (data_t (with_task_indexes self t)) = length (data_y self)
       \<and> (\<forall>v \<in> set (data_t (with_task_indexes self t)). v = t)
       \<and> data_y (with_task_indexes self t) = data_y self
       \<and> (\<forall>d. sel (with_task_indexes self t) t = Inr d \<and> t < int (length (inc_trsf self)) \<longrightarrow>
             trsf_getitem sel self (Index t) =
               Some (Inr \<lparr>train_data = d, task_trsf = inc_trsf self ! nat t @ base_trsf self\<rparr>,
                     with_task_indexes self t))
       \<and> (\<forall>u. 0 \<le> u \<and> u \<le> 2 ^ 53 \<longrightarrow>
             (\<exists>r. trsf_getitem sel (with_task_indexes self t) (Index u)
                    = Some (r, with_task_indexes (with_task_indexes self t) u))
             \<and> data_t (with_task_indexes (with_task_indexes self t) u)
                 = replicate (length (data_y self)) u)"
proof -
  let ?s = "with_task_indexes self t"
  have upd: "update_task_indexes self t = Inr ?s"
    using assms by (intro update_task_indexes_exact float64_exact) simp
  have ret: "\<exists>r. trsf_getitem sel s (Index u) = Some (r, with_task_indexes s u)"
    if "0 \<le> u" "u \<le> 2 ^ 53" for u s
    using that by (auto simp: trsf_getitem_exact split: sum.splits)
  have ok: "trsf_getitem sel self (Index t) =
               Some (Inr \<lparr>train_data = d, task_trsf = inc_trsf self ! nat t @ base_trsf self\<rparr>, ?s)"
    if "sel ?s t = Inr d" "t < int (length (inc_trsf self))" for d
    using that assms
    by (simp add: trsf_getitem_exact get_task_transformation_in_range with_task_indexes_fields)
  show ?thesis
    using upd ret[OF assms] ret ok
    by (simp add: with_task_indexes_fields)
qed

text \<open>
  Claim C8.  With at least one task, a negative index \<open>t\<close> is resolved by the loop to
  \<open>t mod nb_tasks\<close>, a valid task index; the access is the access with that index, and
  (within the exact range of the array) it rewrites the array to it.
\<close>

theorem negative_index_wraps:
  assumes "0 < nb_tasks self" "t < 0"
  shows "normalize_index self (Index t) = Some (Inr (t mod int (nb_tasks self)))
       \<and> 0 \<le> t mod int (nb_tasks self) \<and> t mod int (nb_tasks self) < int (nb_tasks self)
       \<and> trsf_getitem sel self (Index t)
           = trsf_getitem sel self (Index (t mod int (nb_tasks self)))
       \<and> (t mod int (nb_tasks self) \<le> 2 ^ 53 \<longrightarrow>
            (\<exists>r. trsf_getitem sel self (Index t)
                   = Some (r, with_task_indexes self (t mod int (nb_tasks self)))))"
proof -
  let ?k = "t mod int (nb_tasks self)"
  have k: "0 \<le> ?k" "?k < int (nb_tasks self)" using assms(1) by simp_all
  have n: "normalize_index self (Index t) = Some (Inr ?k)"
    using assms by (simp add: normalize_index_def wrap_negative_mod)
  have same: "trsf_getitem sel self (Index t) = trsf_getitem sel self (Index ?k)"
    using n k(1) by (simp add: trsf_getitem_def normalize_index_nonneg)
  have "\<exists>r. trsf_getitem sel self (Index t) = Some (r, with_task_indexes self ?k)"
    if "?k \<le> 2 ^ 53"
    using same k(1) that by (auto simp: trsf_getitem_exact split: sum.splits)
  with n k same show ?thesis by simp
qed



text \<open>Access to task 2 of four: three samples, all recorded as task 2.\<close>

theorem task_indexes_after_access_witness:
  "(0::int) \<le> 2 \<and> (2::int) \<le> 2 ^ 53
   \<and> trsf_getitem select_matching four_tasks (Index 2)
       = Some (Inr \<lparr>train_data = [7, 8, 9], task_trsf = [''rot180'', ''to_tensor'']\<rparr>,
               four_tasks\<lparr>data_t := [2, 2, 2]\<rparr>)"
  using task_indexes_after_access[where t = 2 and self = four_tasks and sel = select_matching]
  by (simp add: four_tasks_def select_matching_def with_task_indexes_def)

text \<open>With 4 tasks both \<open>-1\<close> and \<open>-5\<close> resolve to task 3.\<close>

theorem negative_index_wraps_witness:
  "0 < nb_tasks four_tasks \<and> (- 5 :: int) < 0
   \<and> normalize_index four_tasks (Index (- 1)) = Some (Inr 3)
   \<and> normalize_index four_tasks (Index (- 5)) = Some (Inr 3)
   \<and> trsf_getitem select_matching four_tasks (Index (- 5))
       = trsf_getitem select_matching four_tasks (Index 3)"
  using negative_index_wraps[where self = four_tasks and t = "- 1" and sel = select_matching]
    negative_index_wraps[where self = four_tasks and t = "- 5" and sel = select_matching]
  by (simp add: four_tasks_def)


section \<open>Segmentation task access and construction\<close>

lemma list_index_in:
  "v \<in> set co \<Longrightarrow>
   \<exists>k<length co. list_index co v = Inr (int k) \<and> co ! k = v \<and> (\<forall>j<k. co ! j \<noteq> v)"
proof (induction co)
  case Nil
  then show ?case by simp
next
  case (Cons x co)
  show ?case
  proof (cases "x = v")
    case True
    then show ?thesis by auto
  next
    case False
    with Cons.prems have "v \<in> set co" by simp
    from Cons.IH[OF this] obtain k where k: "k < length co" "list_index co v = Inr (int k)"
      "co ! k = v" "\<forall>j<k. co ! j \<noteq> v" by blast
    have "\<forall>j<Suc k. (x # co) ! j \<noteq> v"
      using False k(4) by (auto simp: nth_Cons')
    with k False show ?thesis
      by (intro exI[of _ "Suc k"]) (simp add: add.commute)
  qed
qed

lemma list_index_upto: "a \<le> c \<Longrightarrow> c \<le> n \<Longrightarrow> list_index [a..n] c = Inr (c - a)"
proof (induction a n rule: upto.induct)
  case (1 a n)
  show ?case
  proof (cases "a = c")
    case True
    with "1.prems" show ?thesis by (simp add: upto.simps)
  next
    case False
    with "1.prems" have "a + 1 \<le> c" "a \<le> n" by simp_all
    with "1.IH" "1.prems" have "list_index [a + 1..n] c = Inr (c - (a + 1))" by simp
    with False \<open>a \<le> n\<close> show ?thesis by (subst upto.simps) simp
  qed
qed

lemma set_py_slice: "set (py_slice xs lo hi) \<subseteq> set xs"
  by (auto simp: py_slice_def Let_def dest: in_set_takeD in_set_dropD)

lemma inverted_order_of_ok:
  assumes "set labels \<subseteq> set co"
  shows "\<exists>d'. inverted_order_of co labels d = Inr d'
           \<and> (\<forall>v. v \<in> set labels \<longrightarrow> (\<exists>k. list_index co v = Inr k \<and> d' v = Some k))
           \<and> (\<forall>v. v \<notin> set labels \<longrightarrow> d' v = d v)"
  using assms
proof (induction labels arbitrary: d)
  case Nil
  then show ?case by simp
next
  case (Cons label labels)
  then have "label \<in> set co" by simp
  from list_index_in[OF this] obtain k where k: "list_index co label = Inr (int k)" by blast
  from Cons.prems have sub: "set labels \<subseteq> set co" by simp
  from Cons.IH[OF sub, of "d(label \<mapsto> int k)"]
  obtain d' where d': "inverted_order_of co labels (d(label \<mapsto> int k)) = Inr d'"
    "\<forall>v. v \<in> set labels \<longrightarrow> (\<exists>k. list_index co v = Inr k \<and> d' v = Some k)"
    "\<forall>v. v \<notin> set labels \<longrightarrow> d' v = (d(label \<mapsto> int k)) v"
    by blast
  have run: "inverted_order_of co (label # labels) d = Inr d'"
    using k d'(1) by simp
  have "\<exists>j. list_index co v = Inr j \<and> d' v = Some j" if "v \<in> set (label # labels)" for v
  proof (cases "v \<in> set labels")
    case True
    with d'(2) show ?thesis by blast
  next
    case False
    with that have "v = label" by simp
    with False d'(3) k show ?thesis by simp
  qed
  moreover have "d' v = d v" if "v \<notin> set (label # labels)" for v
    using that d'(3) by simp
  ultimately show ?case using run by blast
qed

lemma py_index_in_range:
  "- int (length xs) \<le> t \<Longrightarrow> t < int (length xs) \<Longrightarrow> \<exists>x. py_index xs t = Inr x"
  by (auto simp: py_index_def)

lemma collect_labels_ok:
  assumes "\<forall>t \<in> set ts. - int (length incs) \<le> t \<and> t < int (length incs)"
  shows "\<exists>ls. collect_labels co incs ts labels = Inr ls
           \<and> set ls = set labels \<union> (\<Union>t \<in> set ts. set (labels_of_task co incs t))"
  using assms
proof (induction ts arbitrary: labels)
  case Nil
  then show ?case by simp
next
  case (Cons t ts)
  then have "- int (length incs) \<le> t" "t < int (length incs)" by simp_all
  from py_index_in_range[OF this] obtain inc where inc: "py_index incs t = Inr inc" by blast
  let ?new = "py_slice co (sum_list (py_slice incs 0 t)) (sum_list (py_slice incs 0 t) + inc)"
  from Cons.prems have rest: "\<forall>t \<in> set ts. - int (length incs) \<le> t \<and> t < int (length incs)"
    by simp
  from Cons.IH[OF rest, of "remdups (labels @ ?new)"]
  obtain ls where ls: "collect_labels co incs ts (remdups (labels @ ?new)) = Inr ls"
    "set ls = set (remdups (labels @ ?new)) \<union> (\<Union>t \<in> set ts. set (labels_of_task co incs t))"
    by blast
  have "labels_of_task co incs t = ?new" by (simp add: labels_of_task_def inc)
  with ls inc show ?case by (auto simp: Let_def)
qed

lemma labels_of_task_slice:
  assumes "0 \<le> t" "t < int (length incs)"
  shows "labels_of_task co incs t = task_slice co incs (nat t)"
proof -
  have "py_index incs t = Inr (incs ! nat t)" using assms by (simp add: py_index_def)
  moreover have "py_slice incs 0 t = take (nat t) incs" using assms(1) by (rule py_slice_prefix)
  ultimately show ?thesis by (simp add: labels_of_task_def task_slice_def Let_def)
qed

lemma labels_of_task_subset: "set (labels_of_task co incs t) \<subseteq> set co"
  using set_py_slice[of co] by (auto simp: labels_of_task_def split: sum.splits)

lemma get_task_labels_ok:
  assumes "\<forall>t \<in> set (task_list ids). - int (length (seg_increments self)) \<le> t
               \<and> t < int (length (seg_increments self))"
  shows "\<exists>ls. get_task_labels self ids = Inr ls
           \<and> set ls = (\<Union>t \<in> set (task_list ids).
                         set (labels_of_task (seg_class_order self) (seg_increments self) t))"
  using collect_labels_ok[OF assms, of "seg_class_order self" "[]"]
  by (simp add: get_task_labels_def task_list_def)


lemma list_index_absent: "v \<notin> set co \<Longrightarrow> list_index co v = Inl ValueError"
  by (induction co) auto

lemma inverted_order_of_labels:
  "inverted_order_of co labels d = Inr d' \<Longrightarrow> set labels \<subseteq> set co"
proof (induction labels arbitrary: d)
  case Nil
  then show ?case by simp
next
  case (Cons label labels)
  show ?case
  proof (cases "label \<in> set co")
    case True
    with Cons show ?thesis by (auto split: sum.splits)
  next
    case False
    with Cons.prems show ?thesis by (simp add: list_index_absent)
  qed
qed

lemma getitem_Inr:
  assumes "getitem sel self idx = Inr ts"
  shows "\<exists>xyt ids labels d. sel self idx = Inr (xyt, ids)
           \<and> get_task_labels self ids = Inr labels
           \<and> inverted_order_of (seg_class_order self) labels Map.empty = Inr d
           \<and> selected ts = xyt
           \<and> target_trsf ts =
               (\<lambda>v. dict_get
                  (if \<not> seg_train self
                   then (d(0 \<mapsto> (if seg_test_background self then 0 else 255)))(255 \<mapsto> 255)
                   else d) v 0)"
  using assms
  by (auto simp: getitem_def Let_def split: if_splits sum.splits prod.splits)

lemma getitem_returns:
  assumes "valid_access sel self idx"
  shows "\<exists>ts. getitem sel self idx = Inr ts"
proof -
  from assms obtain xyt ids where s: "sel self idx = Inr (xyt, ids)"
    and v: "\<forall>t \<in> set (task_list ids). - int (length (seg_increments self)) \<le> t
               \<and> t < int (length (seg_increments self))"
    by (auto simp: valid_access_def list_all_iff split: sum.splits prod.splits)
  from get_task_labels_ok[OF v] obtain ls where ls: "get_task_labels self ids = Inr ls"
    "set ls = (\<Union>t \<in> set (task_list ids).
                         set (labels_of_task (seg_class_order self) (seg_increments self) t))"
    by blast
  have "set ls \<subseteq> set (seg_class_order self)"
    using ls(2) labels_of_task_subset by fastforce
  from inverted_order_of_ok[OF this, of Map.empty]
  obtain d where d: "inverted_order_of (seg_class_order self) ls Map.empty = Inr d" by blast
  have step: "\<not> (case idx of Slice start stop step \<Rightarrow> step \<noteq> None | Index i \<Rightarrow> False)"
    using assms by (auto simp: valid_access_def split: task_index.splits)
  have md: "seg_mode self = ''overlap'' \<or> seg_mode self = ''disjoint''"
    using assms by (simp add: valid_access_def)
  show ?thesis
    using step md s ls(1) d by (simp add: getitem_def Let_def)
qed

lemma test_remap_fixed:
  assumes "getitem sel self idx = Inr ts" "\<not> seg_train self"
  shows "target_trsf ts 0 = (if seg_test_background self then 0 else 255)"
    and "target_trsf ts 255 = 255"
  using getitem_Inr[OF assms(1)] assms(2) by (auto simp: dict_get_def)

text \<open>
  Claim C5.  In test mode, whatever task is accessed, the remapper of a returned bundle
  sends 0 to 0 when \<open>test_background\<close> is set and to 255 otherwise, and sends 255 to
  255; and every valid access does return a bundle.
\<close>

theorem test_mode_remap:
  assumes "\<not> seg_train self"
  shows "(\<forall>ts. getitem sel self idx = Inr ts \<longrightarrow>
            target_trsf ts 0 = (if seg_test_background self then 0 else 255)
            \<and> target_trsf ts 255 = 255)
       \<and> (valid_access sel self idx \<longrightarrow> (\<exists>ts. getitem sel self idx = Inr ts))"
  using assms test_remap_fixed[of sel self idx] getitem_returns[of sel self idx] by blast

lemma queried_classes_labels:
  assumes "\<forall>t \<in> set (task_list ids). 0 \<le> t \<and> t < int (length (seg_increments self))"
    and "get_task_labels self ids = Inr labels"
  shows "set labels = set (queried_classes (seg_class_order self) (seg_increments self) ids)"
proof -
  have v: "\<forall>t \<in> set (task_list ids). - int (length (seg_increments self)) \<le> t
               \<and> t < int (length (seg_increments self))"
    using assms(1) by fastforce
  from get_task_labels_ok[OF v] assms(2)
  have "set labels = (\<Union>t \<in> set (task_list ids).
                         set (labels_of_task (seg_class_order self) (seg_increments self) t))"
    by simp
  also have "\<dots> = (\<Union>t \<in> set (task_list ids).
                         set (task_slice (seg_class_order self) (seg_increments self) (nat t)))"
    using assms(1) by (simp add: labels_of_task_slice)
  finally show ?thesis by (simp add: queried_classes_def)
qed

lemma remap_label:
  assumes g: "getitem sel self idx = Inr ts" and s: "sel self idx = Inr (xyt, ids)"
    and l: "get_task_labels self ids = Inr labels"
  shows "c \<in> set labels \<Longrightarrow> seg_train self \<or> (c \<noteq> 0 \<and> c \<noteq> 255) \<Longrightarrow>
           \<exists>k<length (seg_class_order self). target_trsf ts c = int k
              \<and> seg_class_order self ! k = c \<and> (\<forall>j<k. seg_class_order self ! j \<noteq> c)"
    and "seg_train self \<Longrightarrow> v \<notin> set labels \<Longrightarrow> target_trsf ts v = 0"
proof -
  from getitem_Inr[OF g] s l obtain d where
    d: "inverted_order_of (seg_class_order self) labels Map.empty = Inr d"
    and t: "target_trsf ts =
               (\<lambda>v. dict_get
                  (if \<not> seg_train self
                   then (d(0 \<mapsto> (if seg_test_background self then 0 else 255)))(255 \<mapsto> 255)
                   else d) v 0)"
    by auto
  have sub: "set labels \<subseteq> set (seg_class_order self)"
    using d by (rule inverted_order_of_labels)
  from inverted_order_of_ok[OF sub, of Map.empty] d
  have in_l: "\<forall>v. v \<in> set labels \<longrightarrow> (\<exists>k. list_index (seg_class_order self) v = Inr k \<and> d v = Some k)"
    and out_l: "\<forall>v. v \<notin> set labels \<longrightarrow> d v = None"
    by auto
  show "\<exists>k<length (seg_class_order self). target_trsf ts c = int k
              \<and> seg_class_order self ! k = c \<and> (\<forall>j<k. seg_class_order self ! j \<noteq> c)"
    if c: "c \<in> set labels" and m: "seg_train self \<or> (c \<noteq> 0 \<and> c \<noteq> 255)"
  proof -
    from c sub have "c \<in> set (seg_class_order self)" by blast
    from list_index_in[OF this] obtain k where k: "k < length (seg_class_order self)"
      "list_index (seg_class_order self) c = Inr (int k)" "seg_class_order self ! k = c"
      "\<forall>j<k. seg_class_order self ! j \<noteq> c" by blast
    from in_l c k(2) have "d c = Some (int k)" by auto
    with m have "target_trsf ts c = int k" by (auto simp: t dict_get_def)
    with k show ?thesis by blast
  qed
  show "target_trsf ts v = 0" if "seg_train self" "v \<notin> set labels"
    using that out_l by (simp add: t dict_get_def)
qed


text \<open>Task 1 of a two-task test scenario without test background.\<close>

theorem test_mode_remap_witness:
  "\<not> seg_train two_task_test \<and> valid_access select_index two_task_test (Index 1)
   \<and> remap_of (getitem select_index two_task_test (Index 1)) 0 = Inr 255
   \<and> remap_of (getitem select_index two_task_test (Index 1)) 255 = Inr 255"
  using test_mode_remap[of two_task_test select_index "Index 1"]
  by (auto simp: two_task_test_def valid_access_def select_index_def task_list_def remap_of_def)

text \<open>
  Claim C6, amended.  For every class of the queried tasks' slices the remapper returns
  the class's first position in the class order, in train mode for all of them and in
  test mode for all but the identifiers 0 and 255, which the test-mode rule fixes.  In
  train mode every identifier outside the queried labels goes to 0.
\<close>

theorem remap_positions:
  assumes "getitem sel self idx = Inr ts" and "sel self idx = Inr (xyt, ids)"
    and "\<forall>t \<in> set (task_list ids). 0 \<le> t \<and> t < int (length (seg_increments self))"
  shows "(\<forall>c \<in> set (queried_classes (seg_class_order self) (seg_increments self) ids).
            (seg_train self \<or> (c \<noteq> 0 \<and> c \<noteq> 255)) \<longrightarrow>
            (\<exists>k<length (seg_class_order self). target_trsf ts c = int k
                \<and> seg_class_order self ! k = c \<and> (\<forall>j<k. seg_class_order self ! j \<noteq> c)))
       \<and> (seg_train self \<longrightarrow>
            (\<forall>v. v \<notin> set (queried_classes (seg_class_order self) (seg_increments self) ids)
                 \<longrightarrow> target_trsf ts v = 0))"
proof -
  from getitem_Inr[OF assms(1)] assms(2)
  obtain labels where l: "get_task_labels self ids = Inr labels" by auto
  have q: "set labels = set (queried_classes (seg_class_order self) (seg_increments self) ids)"
    using assms(3) l by (rule queried_classes_labels)
  show ?thesis
    using remap_label[OF assms(1,2) l] unfolding q by blast
qed

text \<open>Task 1 of the two-task scenario in train mode: class 2 goes to position 1.\<close>

theorem remap_positions_witness:
  "\<exists>ts. getitem select_index (two_task_test\<lparr>seg_train := True\<rparr>) (Index 1) = Inr ts
     \<and> select_index (two_task_test\<lparr>seg_train := True\<rparr>) (Index 1)
         = Inr (seg_dataset two_task_test, One 1)
     \<and> list_all (\<lambda>t. 0 \<le> t \<and> t < 2) (task_list (One 1))
     \<and> target_trsf ts 2 = 1 \<and> target_trsf ts 1 = 0 \<and> target_trsf ts 0 = 0
     \<and> target_trsf ts 255 = 0"
proof -
  let ?s = "two_task_test\<lparr>seg_train := True\<rparr>"
  have "valid_access select_index ?s (Index 1)"
    by (simp add: two_task_test_def valid_access_def select_index_def task_list_def)
  then obtain ts where g: "getitem select_index ?s (Index 1) = Inr ts"
    using getitem_returns by blast
  have s: "select_index ?s (Index 1) = Inr (seg_dataset two_task_test, One 1)"
    by (simp add: select_index_def two_task_test_def)
  have v: "\<forall>t \<in> set (task_list (One 1)). 0 \<le> t \<and> t < int (length (seg_increments ?s))"
    by (simp add: task_list_def two_task_test_def)
  have q: "queried_classes (seg_class_order ?s) (seg_increments ?s) (One 1) = [2]"
    by (simp add: queried_classes_def task_list_def task_slice_def two_task_test_def
        py_slice_def slice_bound_def)
  note r = remap_positions[OF g s v, unfolded q]
  from r have a: "\<exists>k<length [1, 2::int]. target_trsf ts 2 = int k \<and> [1, 2] ! k = (2::int)"
    by (auto simp: two_task_test_def)
  from r have b: "\<forall>v. v \<notin> set [2::int] \<longrightarrow> target_trsf ts v = 0"
    by (auto simp: two_task_test_def)
  from a have "target_trsf ts 2 = 1"
    by (auto simp: less_Suc_eq nth_Cons')
  with b g s show ?thesis by (simp add: task_list_def)
qed

text \<open>
  Claim C6 says that every class of the queried slice goes to its position.  With 255
  classes in test mode, class 255 lies in the slice of task 0 at position 254, and the
  remapper sends it to 255.
\<close>

theorem remap_void_class_counterexample:
  "remap_of (getitem select_index wide_scenario (Index 0)) 255 = Inr 255
   \<and> list_index (seg_class_order wide_scenario) 255 = Inr 254
   \<and> 255 \<in> set (task_slice (seg_class_order wide_scenario) (seg_increments wide_scenario) 0)"
proof -
  have "valid_access select_index wide_scenario (Index 0)"
    by (simp add: wide_scenario_def valid_access_def select_index_def task_list_def)
  then obtain ts where g: "getitem select_index wide_scenario (Index 0) = Inr ts"
    using getitem_returns by blast
  have "\<not> seg_train wide_scenario" by (simp add: wide_scenario_def)
  with g have "target_trsf ts 255 = 255" by (rule test_remap_fixed(2))
  with g have r: "remap_of (getitem select_index wide_scenario (Index 0)) 255 = Inr 255"
    by (simp add: remap_of_def)
  have i: "list_index [1 .. 255] 255 = Inr 254"
    using list_index_upto[of 1 255 255] by simp
  have "task_slice [1 .. 255] [255] 0 = [1 .. 255]"
    by (simp add: task_slice_def py_slice_prefix[of 255, simplified])
  then have m: "255 \<in> set (task_slice [1 .. 255] [255] 0)" by simp
  from r i m show ?thesis by (simp add: wide_scenario_def)
qed

text \<open>The scenario of the example is one that \<open>_setup\<close> builds.\<close>

lemma wide_scenario_setup:
  "seg_setup id single_increment (wide_scenario\<lparr>seg_class_order := [], seg_increments := []\<rparr>)
     = Inr (wide_scenario, 1)"
  by (simp add: seg_setup_def single_increment_def wide_scenario_def filter_images_def
      np_zeros_def Let_def)

text \<open>
  \<open>_setup\<close> does not read the class order it finds: the order handed to the
  constructor is overwritten by the dense range before anything uses it.
\<close>

lemma seg_setup_overwrites:
  "seg_setup pixels define_increments (self\<lparr>seg_class_order := co\<rparr>)
     = seg_setup pixels define_increments self"
  by (simp add: seg_setup_def)

lemma seg_setup_dense:
  assumes "seg_setup pixels define_increments self = Inr (self', n)"
  shows "seg_class_order self' = [1 .. seg_nb_classes self]"
    and "n = length (seg_increments self')"
    and "\<exists>t. filter_images pixels (seg_cl_y self) (seg_increments self')
                 [1 .. seg_nb_classes self] (seg_mode self) = Inr t
             \<and> seg_dataset self' = (seg_cl_x self, seg_cl_y self, t)"
  using assms by (auto simp: seg_setup_def Let_def split: sum.splits)

text \<open>
  Claim C4.  A scenario created with the explicit class order \<open>[3, 1, 2]\<close>, three
  classes, one class per task and one sample showing class 3: \<open>_setup\<close> replaces the
  order by \<open>[1, 2, 3]\<close> and puts the sample in task 2, where the explicit order puts
  it in task 0.
\<close>

theorem setup_explicit_class_order:
  "seg_setup id unit_increments permuted_scenario
     = Inr (permuted_scenario\<lparr>seg_class_order := [1, 2, 3], seg_increments := [1, 1, 1],
                               seg_dataset := ([()], [[0, 3]], [[0, 0, 1]])\<rparr>, 3)
   \<and> filter_images id [[0, 3]] [1, 1, 1] [3, 1, 2] ''overlap'' = Inr [[1, 0, 0]]"
  by (simp add: seg_setup_def unit_increments_def permuted_scenario_def filter_images_def
      np_zeros_def np_unique_def py_slice_def slice_bound_def filter_body_def set_cell_def
      Let_def upto.simps numeral_3_eq_3)

end
